theory Spec2Isabelle
  imports Complex_Main
begin

section \<open>Python values and exceptions\<close>

text \<open>
  Python integers are unbounded and are modelled by \<open>int\<close>; \<^verbatim>\<open>fractions.Fraction\<close> is
  modelled by \<open>rat\<close>. Every exception that the modelled code can raise is a value of
  \<open>py_error\<close>, and a computation that may raise returns \<open>py_error + 'a\<close> with \<open>Inl\<close>
  for the exception (\<open>AxisError\<close> is numpy's, \<open>DecimalOverflow\<close> is \<^verbatim>\<open>decimal.Overflow\<close>).
  \<open>py_bind\<close> sequences two such computations: the second one runs only when the first one
  returned.
\<close>

datatype py_error =
  IndexError | ValueError | TypeError | OverflowError | MemoryError | AxisError | DecimalOverflow

definition py_bind :: "py_error + 'a \<Rightarrow> ('a \<Rightarrow> py_error + 'b) \<Rightarrow> py_error + 'b" where
  "py_bind m f = (case m of Inl e \<Rightarrow> Inl e | Inr x \<Rightarrow> f x)"

text \<open>
  The builtins \<^verbatim>\<open>min\<close> and \<^verbatim>\<open>max\<close> scan the sequence from its first element and raise
  \<^verbatim>\<open>ValueError\<close> on an empty one.
\<close>

definition py_min :: "int list \<Rightarrow> py_error + int" where
  "py_min xs = (case xs of [] \<Rightarrow> Inl ValueError | x # ys \<Rightarrow> Inr (fold min ys x))"

definition py_max :: "int list \<Rightarrow> py_error + int" where
  "py_max xs = (case xs of [] \<Rightarrow> Inl ValueError | x # ys \<Rightarrow> Inr (fold max ys x))"

text \<open>
  Item assignment \<^verbatim>\<open>xs[i] = v\<close> on a list or a one-dimensional array: a negative index
  counts from the end, and an index outside the sequence raises \<^verbatim>\<open>IndexError\<close>.
\<close>

definition set_item :: "'a list \<Rightarrow> int \<Rightarrow> 'a \<Rightarrow> py_error + 'a list" where
  "set_item xs i v =
     (if 0 \<le> i \<and> i < int (length xs) then Inr (xs[nat i := v])
      else if i < 0 \<and> - int (length xs) \<le> i then Inr (xs[nat (int (length xs) + i) := v])
      else Inl IndexError)"

text \<open>
  Allocation. \<open>sys_maxsize\<close> is \<^verbatim>\<open>sys.maxsize\<close> of a 64-bit build, and the parameter \<open>mem\<close>
  of the functions below is the largest number of elements that one allocation can hold on
  the machine at hand. List repetition \<^verbatim>\<open>[v] * n\<close> gives the empty list for \<open>n \<le> 0\<close>,
  raises \<^verbatim>\<open>OverflowError\<close> when \<open>n\<close> does not fit an index, and \<^verbatim>\<open>MemoryError\<close> when the
  list does not fit the memory. \<^verbatim>\<open>np.zeros(n)\<close> raises \<^verbatim>\<open>ValueError\<close> for a negative \<open>n\<close>
  and for an \<open>n\<close> whose eight-byte elements exceed the largest array size, and
  \<^verbatim>\<open>MemoryError\<close> when the array does not fit the memory.
\<close>

definition sys_maxsize :: int where
  "sys_maxsize = 9223372036854775807"

definition list_repeat :: "nat \<Rightarrow> 'a \<Rightarrow> int \<Rightarrow> py_error + 'a list" where
  "list_repeat mem v n =
     (if sys_maxsize < n then Inl OverflowError
      else if int mem < n then Inl MemoryError
      else Inr (replicate (nat n) v))"

definition np_zeros :: "nat \<Rightarrow> int \<Rightarrow> py_error + real list" where
  "np_zeros mem n =
     (if n < 0 then Inl ValueError
      else if sys_maxsize < n * 8 then Inl ValueError
      else if int mem < n then Inl MemoryError
      else Inr (replicate (nat n) 0))"

section \<open>models/word\_ram.py\<close>

text \<open>
  \<^verbatim>\<open>WordRAMCost\<close> is the dataclass of three counters. The module keeps one instance in the
  global \<^verbatim>\<open>_word_ram_counter\<close>; here it is passed to every operation and returned updated.
\<close>

record WordRAMCost =
  word_operations :: int
  comparisons :: int
  memory_accesses :: int

text \<open>
  A \<^verbatim>\<open>WordRAMInteger\<close> stores \<^verbatim>\<open>value\<close> and \<^verbatim>\<open>word_size\<close> exactly as the constructor
  receives them (the field \<^verbatim>\<open>value\<close> is called \<open>value_w\<close> here).
\<close>

record WordRAMInteger =
  value_w :: int
  word_size :: int

text \<open>The right operand of an operator is another \<^verbatim>\<open>WordRAMInteger\<close> or a plain integer.\<close>

datatype word_operand = OfWord WordRAMInteger | OfInt int

definition WordRAMInteger_init :: "int \<Rightarrow> int \<Rightarrow> WordRAMInteger" where
  "WordRAMInteger_init v ws = \<lparr>value_w = v, word_size = ws\<rparr>"

definition track_op :: "WordRAMCost \<Rightarrow> WordRAMCost" where
  "track_op c = c\<lparr>word_operations := word_operations c + 1\<rparr>"

definition other_val :: "word_operand \<Rightarrow> int" where
  "other_val other = (case other of OfWord w \<Rightarrow> value_w w | OfInt i \<Rightarrow> i)"

definition WordRAMInteger_add ::
  "WordRAMCost \<Rightarrow> WordRAMInteger \<Rightarrow> word_operand \<Rightarrow> WordRAMInteger \<times> WordRAMCost" where
  "WordRAMInteger_add c self other =
     (let c' = track_op c
      in (WordRAMInteger_init (value_w self + other_val other) (word_size self), c'))"

definition WordRAMInteger_mul ::
  "WordRAMCost \<Rightarrow> WordRAMInteger \<Rightarrow> word_operand \<Rightarrow> WordRAMInteger \<times> WordRAMCost" where
  "WordRAMInteger_mul c self other =
     (let c' = track_op c
      in (WordRAMInteger_init (value_w self * other_val other) (word_size self), c'))"

definition WordRAMInteger_lt ::
  "WordRAMCost \<Rightarrow> WordRAMInteger \<Rightarrow> word_operand \<Rightarrow> bool \<times> WordRAMCost" where
  "WordRAMInteger_lt c self other =
     (value_w self < other_val other, c\<lparr>comparisons := comparisons c + 1\<rparr>)"

section \<open>models/real\_ram.py\<close>

text \<open>
  \<^verbatim>\<open>OperationCost\<close> is the dataclass of six counters, all zero by default
  (\<open>OperationCost_init\<close>). The module-level instance \<^verbatim>\<open>_operation_counter\<close> is passed to
  every operation and returned updated.
\<close>

record OperationCost =
  additions :: int
  multiplications :: int
  divisions :: int
  comparisons :: int
  square_roots :: int
  transcendental :: int

definition total_algebraic :: "OperationCost \<Rightarrow> int" where
  "total_algebraic c =
     additions c + multiplications c + divisions c + comparisons c + square_roots c"

definition reset :: "OperationCost \<Rightarrow> OperationCost" where
  "reset c = c\<lparr>additions := 0, multiplications := 0, divisions := 0, comparisons := 0,
              square_roots := 0, transcendental := 0\<rparr>"
definition OperationCost_init :: OperationCost where
  "OperationCost_init =
     \<lparr>additions = 0, multiplications = 0, divisions = 0, comparisons = 0,
      square_roots = 0, transcendental = 0\<rparr>"

subsection \<open>The symbolic engine\<close>

text \<open>
  \<^verbatim>\<open>ExactReal\<close> keeps a sympy expression in \<^verbatim>\<open>_symbolic\<close>. The model covers the values
  that the four arithmetic operators reach from integer and \<^verbatim>\<open>Fraction\<close> inputs: the
  rational numbers (\<^verbatim>\<open>sympy.Rational\<close>, kept in lowest terms, so equal rationals are the
  same expression), complex infinity \<^verbatim>\<open>zoo\<close> and \<^verbatim>\<open>nan\<close>. Square roots, floats and
  strings are outside the model.

  sympy evaluates arithmetic on these numbers at once. Division by the rational zero does
  not raise: a nonzero numerator gives \<^verbatim>\<open>zoo\<close> and \<^verbatim>\<open>0/0\<close> gives \<^verbatim>\<open>nan\<close>.
  \<^verbatim>\<open>nan\<close> absorbs every operation; \<^verbatim>\<open>zoo + zoo\<close>, \<^verbatim>\<open>zoo - zoo\<close>, \<^verbatim>\<open>zoo * 0\<close> and
  \<^verbatim>\<open>zoo / zoo\<close> are \<^verbatim>\<open>nan\<close>, and a finite number divided by \<^verbatim>\<open>zoo\<close> is zero.
\<close>

datatype sym = Rat rat | Zoo | NaN


fun sym_sub :: "sym \<Rightarrow> sym \<Rightarrow> sym" where
  "sym_sub (Rat p) (Rat q) = Rat (p - q)"
| "sym_sub (Rat p) Zoo = Zoo"
| "sym_sub Zoo (Rat q) = Zoo"
| "sym_sub Zoo Zoo = NaN"
| "sym_sub NaN y = NaN"
| "sym_sub x NaN = NaN"

fun sym_mul :: "sym \<Rightarrow> sym \<Rightarrow> sym" where
  "sym_mul (Rat p) (Rat q) = Rat (p * q)"
| "sym_mul (Rat p) Zoo = (if p = 0 then NaN else Zoo)"
| "sym_mul Zoo (Rat q) = (if q = 0 then NaN else Zoo)"
| "sym_mul Zoo Zoo = Zoo"
| "sym_mul NaN y = NaN"
| "sym_mul x NaN = NaN"

fun sym_div :: "sym \<Rightarrow> sym \<Rightarrow> sym" where
  "sym_div (Rat p) (Rat q) = (if q = 0 then (if p = 0 then NaN else Zoo) else Rat (p / q))"
| "sym_div (Rat p) Zoo = Rat 0"
| "sym_div Zoo (Rat q) = Zoo"
| "sym_div Zoo Zoo = NaN"
| "sym_div NaN y = NaN"
| "sym_div x NaN = NaN"

text \<open>
  \<^verbatim>\<open>sympy.simplify\<close> returns an atom, such as a number, unchanged. The test
  \<^verbatim>\<open>e < 0\<close> on a rational is decided; on \<^verbatim>\<open>nan\<close> and on the non-real \<^verbatim>\<open>zoo\<close> sympy
  raises \<^verbatim>\<open>TypeError\<close>. The test \<^verbatim>\<open>e == 0\<close> is structural equality of expressions and
  always yields a Python boolean. \<open>sym_float\<close> stands for \<^verbatim>\<open>float(e.evalf(100))\<close>: it
  raises \<^verbatim>\<open>TypeError\<close> on \<^verbatim>\<open>zoo\<close> and succeeds on rationals and on \<^verbatim>\<open>nan\<close>; the
  floating-point value itself is not modelled.
\<close>

definition simplify :: "sym \<Rightarrow> sym" where
  "simplify s = s"

definition sym_lt_zero :: "sym \<Rightarrow> py_error + bool" where
  "sym_lt_zero s = (case s of Rat r \<Rightarrow> Inr (r < 0) | Zoo \<Rightarrow> Inl TypeError | NaN \<Rightarrow> Inl TypeError)"

definition sym_eq_zero :: "sym \<Rightarrow> bool" where
  "sym_eq_zero s = (s = Rat 0)"

definition sym_float :: "sym \<Rightarrow> py_error + unit" where
  "sym_float s = (case s of Zoo \<Rightarrow> Inl TypeError | _ \<Rightarrow> Inr ())"

subsection \<open>ExactReal\<close>

text \<open>
  Of the two fields of an \<^verbatim>\<open>ExactReal\<close> only \<^verbatim>\<open>_symbolic\<close> is kept: \<^verbatim>\<open>_numeric\<close> is a
  finite-precision decimal used for display only. Computing it can raise, and that is kept.
  The module sets the decimal precision to 100 digits and leaves the largest exponent at its
  default 999999, with overflow trapped. For a \<^verbatim>\<open>Fraction\<close> the constructor divides the
  numerator by the denominator as decimals: the quotient is rounded half-even to 100 digits
  and \<^verbatim>\<open>decimal.Overflow\<close> is raised when the rounded value reaches \<^verbatim>\<open>10**1000000\<close>, that is
  when the magnitude is at least \<^verbatim>\<open>10**1000000\<close> less half a unit of the hundredth digit. For
  an expression the constructor converts the value to a float first, which is where
  \<^verbatim>\<open>zoo\<close> fails; a rational of any size and \<^verbatim>\<open>nan\<close> pass (a large value becomes the float
  infinity). An integer is converted to a decimal exactly. The constructor tests the type of
  its argument in the order below.
\<close>

definition decimal_prec :: nat where
  "decimal_prec = 100"

definition decimal_emax :: nat where
  "decimal_emax = 999999"

definition decimal_overflow :: "rat \<Rightarrow> bool" where
  "decimal_overflow v =
     (10 ^ Suc decimal_emax - 5 * 10 ^ (decimal_emax - decimal_prec) \<le> \<bar>v\<bar>)"

record ExactReal =
  symbolic :: sym

datatype py_value = PyExactReal ExactReal | PyExpr sym | PyFraction rat | PyInt int

definition ExactReal_init :: "py_value \<Rightarrow> py_error + ExactReal" where
  "ExactReal_init v =
     (case v of
        PyExactReal e \<Rightarrow> Inr \<lparr>symbolic = symbolic e\<rparr>
      | PyExpr s \<Rightarrow> py_bind (sym_float s) (\<lambda>_. Inr \<lparr>symbolic = s\<rparr>)
      | PyFraction f \<Rightarrow>
          if decimal_overflow f then Inl DecimalOverflow else Inr \<lparr>symbolic = Rat f\<rparr>
      | PyInt i \<Rightarrow> Inr \<lparr>symbolic = Rat (of_int i)\<rparr>)"

text \<open>
  Each operator increments its counter first, then turns the right operand into an
  \<^verbatim>\<open>ExactReal\<close> unless it is one already (\<open>as_exact\<close>), and wraps the sympy result in a
  new \<^verbatim>\<open>ExactReal\<close>. None of them inspects the operands: no divisor is tested for zero and
  no exception is raised by this module itself.
\<close>

definition as_exact :: "py_value \<Rightarrow> py_error + ExactReal" where
  "as_exact other = (case other of PyExactReal e \<Rightarrow> Inr e | _ \<Rightarrow> ExactReal_init other)"


definition ExactReal_sub ::
  "OperationCost \<Rightarrow> ExactReal \<Rightarrow> py_value \<Rightarrow> (py_error + ExactReal) \<times> OperationCost" where
  "ExactReal_sub c self other =
     (let c' = c\<lparr>additions := additions c + 1\<rparr>
      in (py_bind (as_exact other)
            (\<lambda>other. ExactReal_init (PyExpr (sym_sub (symbolic self) (symbolic other)))), c'))"

definition ExactReal_mul ::
  "OperationCost \<Rightarrow> ExactReal \<Rightarrow> py_value \<Rightarrow> (py_error + ExactReal) \<times> OperationCost" where
  "ExactReal_mul c self other =
     (let c' = c\<lparr>multiplications := multiplications c + 1\<rparr>
      in (py_bind (as_exact other)
            (\<lambda>other. ExactReal_init (PyExpr (sym_mul (symbolic self) (symbolic other)))), c'))"

definition ExactReal_truediv ::
  "OperationCost \<Rightarrow> ExactReal \<Rightarrow> py_value \<Rightarrow> (py_error + ExactReal) \<times> OperationCost" where
  "ExactReal_truediv c self other =
     (let c' = c\<lparr>divisions := divisions c + 1\<rparr>
      in (py_bind (as_exact other)
            (\<lambda>other. ExactReal_init (PyExpr (sym_div (symbolic self) (symbolic other)))), c'))"

definition ExactReal_lt ::
  "OperationCost \<Rightarrow> ExactReal \<Rightarrow> py_value \<Rightarrow> (py_error + bool) \<times> OperationCost" where
  "ExactReal_lt c self other =
     (let c' = c\<lparr>comparisons := comparisons c + 1\<rparr>
      in (py_bind (as_exact other)
            (\<lambda>other. sym_lt_zero (simplify (sym_sub (symbolic self) (symbolic other)))), c'))"

definition ExactReal_eq ::
  "OperationCost \<Rightarrow> ExactReal \<Rightarrow> py_value \<Rightarrow> (py_error + bool) \<times> OperationCost" where
  "ExactReal_eq c self other =
     (let c' = c\<lparr>comparisons := comparisons c + 1\<rparr>
      in (py_bind (as_exact other)
            (\<lambda>other. Inr (sym_eq_zero (simplify (sym_sub (symbolic self) (symbolic other))))), c'))"

section \<open>algorithms/sumset.py\<close>

record SumsetResult =
  sumset :: "int set"
  size_res :: int
  algorithm :: string
  operations :: int

text \<open>
  \<^verbatim>\<open>naive_sumset\<close>: the two nested loops carry the result set and the operation counter.
\<close>

fun naive_inner :: "int \<Rightarrow> int list \<Rightarrow> int set \<times> int \<Rightarrow> int set \<times> int" where
  "naive_inner x [] st = st"
| "naive_inner x (y # ys) (result, ops) = naive_inner x ys (insert (x + y) result, ops + 1)"

fun naive_outer :: "int list \<Rightarrow> int list \<Rightarrow> int set \<times> int \<Rightarrow> int set \<times> int" where
  "naive_outer [] b st = st"
| "naive_outer (x # xs) b st = naive_outer xs b (naive_inner x b st)"

definition naive_sumset :: "int list \<Rightarrow> int list \<Rightarrow> SumsetResult" where
  "naive_sumset a b =
     (case naive_outer a b ({}, 0) of
        (result, ops) \<Rightarrow>
          \<lparr>sumset = result, size_res = int (card result), algorithm = ''naive'',
           operations = ops\<rparr>)"

text \<open>
  \<^verbatim>\<open>bucket_sumset\<close>: the presence table \<^verbatim>\<open>hit\<close> is a list of booleans, allocated by list
  repetition and written by index; the final sweep collects the indices that hold
  \<^verbatim>\<open>True\<close>.
\<close>

fun bucket_inner ::
  "int \<Rightarrow> int \<Rightarrow> int list \<Rightarrow> bool list \<times> int \<Rightarrow> py_error + bool list \<times> int" where
  "bucket_inner min_sum x [] st = Inr st"
| "bucket_inner min_sum x (y # ys) (hit, ops) =
     py_bind (set_item hit ((x + y) - min_sum) True)
       (\<lambda>hit'. bucket_inner min_sum x ys (hit', ops + 1))"

fun bucket_outer ::
  "int \<Rightarrow> int list \<Rightarrow> int list \<Rightarrow> bool list \<times> int \<Rightarrow> py_error + bool list \<times> int" where
  "bucket_outer min_sum [] b st = Inr st"
| "bucket_outer min_sum (x # xs) b st =
     py_bind (bucket_inner min_sum x b st) (\<lambda>st'. bucket_outer min_sum xs b st')"

definition bucket_sumset :: "nat \<Rightarrow> int list \<Rightarrow> int list \<Rightarrow> py_error + SumsetResult" where
  "bucket_sumset mem a b =
     (if a = [] \<or> b = [] then
        Inr \<lparr>sumset = {}, size_res = 0, algorithm = ''bucket'', operations = 0\<rparr>
      else
        py_bind (py_min a) (\<lambda>min_a. py_bind (py_min b) (\<lambda>min_b.
        py_bind (py_max a) (\<lambda>max_a. py_bind (py_max b) (\<lambda>max_b.
          let min_sum = min_a + min_b;
              max_sum = max_a + max_b
          in py_bind (list_repeat mem False (max_sum - min_sum + 1)) (\<lambda>hit0.
             py_bind (bucket_outer min_sum a b (hit0, 0)) (\<lambda>(hit, ops).
               let result = set (map (\<lambda>(i, v). int i + min_sum)
                                   (filter (\<lambda>(i, v). v) (enumerate 0 hit)))
               in Inr \<lparr>sumset = result, size_res = int (card result),
                       algorithm = ''bucket'', operations = ops\<rparr>)))))))"

text \<open>
  \<^verbatim>\<open>fft_sumset\<close>. The doubling loop \<^verbatim>\<open>while fft_size < size: fft_size *= 2\<close> is a
  partial function, \<open>None\<close> standing for a loop that never ends; \<open>fft_size_of\<close> is the
  whole computation of the transform length, the loop started at 1 followed by the final
  doubling.
\<close>

partial_function (option) pad_loop :: "int \<Rightarrow> int \<Rightarrow> int option" where
  "pad_loop fft_size sz =
     (if fft_size < sz then pad_loop (fft_size * 2) sz else Some fft_size)"

declare pad_loop.simps [code]

definition fft_size_of :: "int \<Rightarrow> int option" where
  "fft_size_of sz = map_option (\<lambda>n. n * 2) (pad_loop 1 sz)"

text \<open>The loops \<^verbatim>\<open>for x in a_shifted: poly_a[x] = 1\<close> write into the zero vectors.\<close>

fun fill_ones :: "real list \<Rightarrow> int list \<Rightarrow> py_error + real list" where
  "fill_ones poly [] = Inr poly"
| "fill_ones poly (x # xs) = py_bind (set_item poly x 1) (\<lambda>poly'. fill_ones poly' xs)"

text \<open>
  \<^verbatim>\<open>np.fft.ifft(np.fft.fft(u) * np.fft.fft(v)).real\<close> is, by the convolution theorem, the
  cyclic convolution of \<open>u\<close> and \<open>v\<close> over their common length. The model takes this exact
  value over the reals; the rounding error of the floating-point transform is not modelled.
  Likewise \<^verbatim>\<open>int(np.log2(n))\<close> is taken at its exact value, the integer part of the binary
  logarithm.
\<close>

definition cyclic_convolution :: "real list \<Rightarrow> real list \<Rightarrow> real list" where
  "cyclic_convolution u v =
     (let n = length u
      in map (\<lambda>i. \<Sum>j\<leftarrow>[0..<n]. u ! j * v ! ((i + n - j) mod n)) [0..<n])"

fun floor_log2 :: "nat \<Rightarrow> nat" where
  "floor_log2 n = (if n < 2 then 0 else Suc (floor_log2 (n div 2)))"

declare floor_log2.simps [simp del]

text \<open>
  \<open>fft_bind\<close> sequences the steps of \<^verbatim>\<open>fft_sumset\<close>, which may raise (\<open>Some (Inl e)\<close>) or,
  in the doubling loop, fail to return (\<open>None\<close>). The body of \<^verbatim>\<open>fft_sumset\<close> after the
  test for empty inputs is written in two parts: \<open>fft_vectors\<close> is the code up to the two filled
  indicator vectors (the shifts, the transform length, the two \<^verbatim>\<open>np.zeros\<close> and the two
  loops), and \<open>fft_sumset\<close> continues with the transform, the threshold and the result.
\<close>

definition fft_bind ::
  "(py_error + 'a) option \<Rightarrow> ('a \<Rightarrow> (py_error + 'b) option) \<Rightarrow> (py_error + 'b) option" where
  "fft_bind m f = (case m of None \<Rightarrow> None | Some (Inl e) \<Rightarrow> Some (Inl e) | Some (Inr x) \<Rightarrow> f x)"

definition fft_vectors ::
  "nat \<Rightarrow> int list \<Rightarrow> int list \<Rightarrow>
   (py_error + int \<times> int \<times> int \<times> real list \<times> real list) option" where
  "fft_vectors mem a b =
     fft_bind (Some (py_min a)) (\<lambda>min_a. fft_bind (Some (py_min b)) (\<lambda>min_b.
       let a_shifted = map (\<lambda>x. x - min_a) a;
           b_shifted = map (\<lambda>x. x - min_b) b
       in fft_bind (Some (py_max a_shifted)) (\<lambda>max_as.
          fft_bind (Some (py_max b_shifted)) (\<lambda>max_bs.
          fft_bind (map_option Inr (fft_size_of (max_as + max_bs + 1))) (\<lambda>fft_size.
          fft_bind (Some (np_zeros mem fft_size)) (\<lambda>zeros_a.
          fft_bind (Some (np_zeros mem fft_size)) (\<lambda>zeros_b.
          fft_bind (Some (fill_ones zeros_a a_shifted)) (\<lambda>poly_a.
          fft_bind (Some (fill_ones zeros_b b_shifted)) (\<lambda>poly_b.
            Some (Inr (min_a, min_b, fft_size, poly_a, poly_b)))))))))))"

definition fft_sumset ::
  "nat \<Rightarrow> int list \<Rightarrow> int list \<Rightarrow> (py_error + SumsetResult) option" where
  "fft_sumset mem a b =
     (if a = [] \<or> b = [] then
        Some (Inr \<lparr>sumset = {}, size_res = 0, algorithm = ''fft'', operations = 0\<rparr>)
      else
        fft_bind (fft_vectors mem a b) (\<lambda>(min_a, min_b, fft_size, poly_a, poly_b).
          let product = cyclic_convolution poly_a poly_b;
              result = set (map (\<lambda>(i, c). int i + min_a + min_b)
                              (filter (\<lambda>(i, c). c > 0.5) (enumerate 0 product)));
              ops = 3 * fft_size * int (floor_log2 (nat fft_size))
          in Some (Inr \<lparr>sumset = result, size_res = int (card result),
                        algorithm = ''fft'', operations = ops\<rparr>)))"

section \<open>algorithms/geometric.py\<close>

text \<open>
  \<^verbatim>\<open>hill_climb\<close> works on numpy arrays of floats with numpy's global random generator. The
  model keeps its control flow, its counters and its failures, and takes the floating-point
  parts as parameters.

  \<^item> \<^verbatim>\<open>np.random.seed(seed)\<close> raises \<^verbatim>\<open>ValueError\<close> unless \<open>0 \<le> seed < 2\<^sup>3\<^sup>2\<close>; \<open>init\<close> gives
    the generator state that a valid seed leaves.
  \<^item> \<open>points\<close> is the list of points. The inner function \<^verbatim>\<open>cost\<close> raises numpy's
    \<^verbatim>\<open>AxisError\<close> on the array of an empty list, which has one dimension only; on a nonempty
    list of pairs it returns the value \<open>objective\<close> of the sum of the distances to the
    centroid, compared by \<open>lt\<close>.
  \<^item> \<open>propose\<close> draws the uniform noise, adds it to the current best configuration and clips
    the result to the unit square; it may raise (a step size that is not finite).

  The loop \<^verbatim>\<open>for _ in range(steps)\<close> runs \<open>nat steps\<close> times: a negative \<^verbatim>\<open>steps\<close> gives an
  empty range. The final \<^verbatim>\<open>flatten\<close> of the best configuration is left out.
\<close>

record ('p, 'c) OptimizationResult =
  optimal_value :: 'c
  optimal_point :: "'p list"
  iterations :: int
  function_evaluations :: int
  gradient_evaluations :: int
  converged :: bool

definition np_random_seed :: "(int \<Rightarrow> 'g) \<Rightarrow> int \<Rightarrow> py_error + 'g" where
  "np_random_seed init seed =
     (if 0 \<le> seed \<and> seed < 2 ^ 32 then Inr (init seed) else Inl ValueError)"

definition cost :: "('p list \<Rightarrow> 'c) \<Rightarrow> 'p list \<Rightarrow> py_error + 'c" where
  "cost objective pts = (if pts = [] then Inl AxisError else Inr (objective pts))"

fun hill_climb_loop ::
  "('p list \<Rightarrow> 'c) \<Rightarrow> ('c \<Rightarrow> 'c \<Rightarrow> bool) \<Rightarrow> ('g \<Rightarrow> 'p list \<Rightarrow> py_error + 'p list \<times> 'g) \<Rightarrow>
   nat \<Rightarrow> 'p list \<times> 'c \<times> int \<times> 'g \<Rightarrow> py_error + 'p list \<times> 'c \<times> int \<times> 'g" where
  "hill_climb_loop objective lt propose 0 st = Inr st"
| "hill_climb_loop objective lt propose (Suc n) (best, best_cost, func_evals, g) =
     py_bind (propose g best) (\<lambda>(candidate, g').
     py_bind (cost objective candidate) (\<lambda>c_cost.
       let func_evals' = func_evals + 1
       in if lt c_cost best_cost
          then hill_climb_loop objective lt propose n (candidate, c_cost, func_evals', g')
          else hill_climb_loop objective lt propose n (best, best_cost, func_evals', g')))"

definition hill_climb ::
  "('p list \<Rightarrow> 'c) \<Rightarrow> ('c \<Rightarrow> 'c \<Rightarrow> bool) \<Rightarrow> ('g \<Rightarrow> 'p list \<Rightarrow> py_error + 'p list \<times> 'g) \<Rightarrow>
   (int \<Rightarrow> 'g) \<Rightarrow> 'p list \<Rightarrow> int \<Rightarrow> int \<Rightarrow> py_error + ('p, 'c) OptimizationResult" where
  "hill_climb objective lt propose init points steps seed =
     py_bind (np_random_seed init seed) (\<lambda>rng.
     py_bind (cost objective points) (\<lambda>best_cost.
     py_bind (hill_climb_loop objective lt propose (nat steps) (points, best_cost, 1, rng))
       (\<lambda>(best, best_cost, func_evals, g).
          Inr \<lparr>optimal_value = best_cost, optimal_point = best, iterations = steps,
                function_evaluations = func_evals, gradient_evaluations = 0,
                converged = True\<rparr>)))"

section \<open>Properties of the word-RAM integers\<close>

text \<open>
  C10. Addition and multiplication of a \<^verbatim>\<open>WordRAMInteger\<close> store the exact unbounded sum
  and product of the operand values, for every value and every declared word size: the
  result is never reduced modulo a power of two, and the operations have no failure value.
  The word size of the left operand is carried over and one word operation is counted.
\<close>

theorem word_ram_exact_arithmetic:
  "WordRAMInteger_add c (WordRAMInteger_init x ws) other =
     (\<lparr>value_w = x + other_val other, word_size = ws\<rparr>,
      c\<lparr>word_operations := word_operations c + 1\<rparr>)
   \<and> WordRAMInteger_mul c (WordRAMInteger_init x ws) other =
     (\<lparr>value_w = x * other_val other, word_size = ws\<rparr>,
      c\<lparr>word_operations := word_operations c + 1\<rparr>)
   \<and> other_val (OfWord (WordRAMInteger_init y ws')) = y
   \<and> other_val (OfInt y) = y"
  by (simp add: WordRAMInteger_add_def WordRAMInteger_mul_def WordRAMInteger_init_def
      track_op_def other_val_def)

section \<open>Properties of ExactReal\<close>

lemma as_exact_ExactReal: "as_exact (PyExactReal e) = Inr e"
  by (simp add: as_exact_def)

lemma ExactReal_init_Rat: "ExactReal_init (PyExpr (Rat r)) = Inr \<lparr>symbolic = Rat r\<rparr>"
  by (simp add: ExactReal_init_def sym_float_def py_bind_def)

lemma ExactReal_init_NaN: "ExactReal_init (PyExpr NaN) = Inr \<lparr>symbolic = NaN\<rparr>"
  by (simp add: ExactReal_init_def sym_float_def py_bind_def)

lemma ExactReal_init_Zoo: "ExactReal_init (PyExpr Zoo) = Inl TypeError"
  by (simp add: ExactReal_init_def sym_float_def py_bind_def)

text \<open>
  C2, as the specification states it, fails: dividing the exact zero by the exact zero raises
  nothing and returns the \<^verbatim>\<open>nan\<close>-valued \<^verbatim>\<open>ExactReal\<close>.
\<close>

theorem exact_divide_zero_counterexample:
  "ExactReal_truediv OperationCost_init \<lparr>symbolic = Rat 0\<rparr> (PyExactReal \<lparr>symbolic = Rat 0\<rparr>) =
     (Inr \<lparr>symbolic = NaN\<rparr>, OperationCost_init\<lparr>divisions := 1\<rparr>)"
  by (simp add: ExactReal_truediv_def as_exact_ExactReal py_bind_def ExactReal_init_NaN
      OperationCost_init_def)

text \<open>
  C2, amended. Division does not test its divisor. When the divisor is the rational zero, a
  nonzero rational dividend makes the operation fail with the \<^verbatim>\<open>TypeError\<close> that the float
  conversion of complex infinity raises in the constructor, and a zero dividend returns the
  \<^verbatim>\<open>nan\<close>-valued \<^verbatim>\<open>ExactReal\<close> without an error; the division counter is incremented by
  one in both cases.
\<close>

theorem exact_divide_by_zero:
  "symbolic x = Rat p \<Longrightarrow> symbolic y = Rat 0 \<Longrightarrow>
   ExactReal_truediv c x (PyExactReal y) =
     (if p = 0 then Inr \<lparr>symbolic = NaN\<rparr> else Inl TypeError,
      c\<lparr>divisions := divisions c + 1\<rparr>)"
  by (simp add: ExactReal_truediv_def as_exact_ExactReal py_bind_def ExactReal_init_NaN
      ExactReal_init_Zoo)

theorem exact_divide_by_zero_witness:
  "symbolic \<lparr>symbolic = Rat 1\<rparr> = Rat 1 \<and> symbolic \<lparr>symbolic = Rat 0\<rparr> = Rat 0
   \<and> ExactReal_truediv OperationCost_init \<lparr>symbolic = Rat 1\<rparr> (PyExactReal \<lparr>symbolic = Rat 0\<rparr>) =
       (Inl TypeError, OperationCost_init\<lparr>divisions := 1\<rparr>)"
  using exact_divide_by_zero [of "\<lparr>symbolic = Rat 1\<rparr>" 1 "\<lparr>symbolic = Rat 0\<rparr>" OperationCost_init]
  by (simp add: OperationCost_init_def)

text \<open>
  C3, as the specification states it, fails: the difference of two \<^verbatim>\<open>nan\<close>-valued operands
  is \<^verbatim>\<open>nan\<close>, which has no sign, and the equality test reports them unequal without an
  error.
\<close>

theorem exact_eq_unresolved_counterexample:
  "ExactReal_eq OperationCost_init \<lparr>symbolic = NaN\<rparr> (PyExactReal \<lparr>symbolic = NaN\<rparr>) =
     (Inr False, OperationCost_init\<lparr>comparisons := 1\<rparr>)"
  by (simp add: ExactReal_eq_def as_exact_ExactReal py_bind_def simplify_def sym_eq_zero_def
      OperationCost_init_def)

text \<open>
  C3, amended. The equality test never fails on two \<^verbatim>\<open>ExactReal\<close> operands: it returns
  whether the simplified difference is structurally the rational zero, and so reports
  "unequal" whenever the difference has no resolved sign. The order test returns the sign
  test of a rational difference and passes on the \<^verbatim>\<open>TypeError\<close> of the symbolic engine when
  the difference is \<^verbatim>\<open>nan\<close> or complex infinity. Both count one comparison.
\<close>

theorem exact_comparison_outcomes:
  "ExactReal_eq c x (PyExactReal y) =
     (Inr (sym_sub (symbolic x) (symbolic y) = Rat 0), c\<lparr>comparisons := comparisons c + 1\<rparr>)
   \<and> ExactReal_lt c x (PyExactReal y) =
     (case sym_sub (symbolic x) (symbolic y) of
        Rat d \<Rightarrow> Inr (d < 0) | Zoo \<Rightarrow> Inl TypeError | NaN \<Rightarrow> Inl TypeError,
      c\<lparr>comparisons := comparisons c + 1\<rparr>)"
  by (simp add: ExactReal_eq_def ExactReal_lt_def as_exact_ExactReal py_bind_def simplify_def
      sym_eq_zero_def sym_lt_zero_def)

theorem exact_comparison_outcomes_witness:
  "ExactReal_eq OperationCost_init \<lparr>symbolic = Rat (1 / 3)\<rparr> (PyExactReal \<lparr>symbolic = Rat (1 / 2)\<rparr>) =
     (Inr False, OperationCost_init\<lparr>comparisons := 1\<rparr>)
   \<and> ExactReal_lt OperationCost_init \<lparr>symbolic = Rat (1 / 3)\<rparr> (PyExactReal \<lparr>symbolic = Rat (1 / 2)\<rparr>) =
     (Inr True, OperationCost_init\<lparr>comparisons := 1\<rparr>)
   \<and> ExactReal_lt OperationCost_init \<lparr>symbolic = NaN\<rparr> (PyExactReal \<lparr>symbolic = Rat 0\<rparr>) =
     (Inl TypeError, OperationCost_init\<lparr>comparisons := 1\<rparr>)"
  using exact_comparison_outcomes [of OperationCost_init "\<lparr>symbolic = Rat (1 / 3)\<rparr>" "\<lparr>symbolic = Rat (1 / 2)\<rparr>"]
    exact_comparison_outcomes [of OperationCost_init "\<lparr>symbolic = NaN\<rparr>" "\<lparr>symbolic = Rat 0\<rparr>"]
  by (simp add: OperationCost_init_def)











text \<open>
  C7. \<^verbatim>\<open>ExactReal(1) / ExactReal(3) * ExactReal(3)\<close> is exactly \<^verbatim>\<open>ExactReal(1)\<close>: the
  quotient is the rational one third, the product is the rational one, and the equality test
  against \<^verbatim>\<open>ExactReal(1)\<close> returns \<^verbatim>\<open>True\<close>.
\<close>

theorem exact_divide_multiply_roundtrip:
  "ExactReal_init (PyInt 1) = Inr \<lparr>symbolic = Rat 1\<rparr>
   \<and> ExactReal_init (PyInt 3) = Inr \<lparr>symbolic = Rat 3\<rparr>
   \<and> ExactReal_truediv c \<lparr>symbolic = Rat 1\<rparr> (PyExactReal \<lparr>symbolic = Rat 3\<rparr>) =
       (Inr \<lparr>symbolic = Rat (1 / 3)\<rparr>, c\<lparr>divisions := divisions c + 1\<rparr>)
   \<and> ExactReal_mul c1 \<lparr>symbolic = Rat (1 / 3)\<rparr> (PyExactReal \<lparr>symbolic = Rat 3\<rparr>) =
       (Inr \<lparr>symbolic = Rat 1\<rparr>, c1\<lparr>multiplications := multiplications c1 + 1\<rparr>)
   \<and> ExactReal_eq c2 \<lparr>symbolic = Rat 1\<rparr> (PyExactReal \<lparr>symbolic = Rat 1\<rparr>) =
       (Inr True, c2\<lparr>comparisons := comparisons c2 + 1\<rparr>)"
  by (simp add: ExactReal_truediv_def ExactReal_mul_def ExactReal_eq_def as_exact_ExactReal
      py_bind_def ExactReal_init_Rat simplify_def sym_eq_zero_def)
    (simp add: ExactReal_init_def)

section \<open>Properties of the sumset algorithms\<close>

subsection \<open>The naive and the bucket algorithm\<close>

lemma naive_inner_eq:
  "naive_inner x b (R, n) = (R \<union> (\<lambda>y. x + y) ` set b, n + int (length b))"
  by (induction b arbitrary: R n) auto

lemma naive_outer_eq:
  "naive_outer a b (R, n) =
     (R \<union> (\<lambda>(x, y). x + y) ` (set a \<times> set b), n + int (length a) * int (length b))"
proof (induction a arbitrary: R n)
  case Nil
  show ?case by simp
next
  case (Cons x xs)
  have "(\<lambda>(x, y). x + y) ` (set (x # xs) \<times> set b) =
        (\<lambda>y. x + y) ` set b \<union> (\<lambda>(x, y). x + y) ` (set xs \<times> set b)"
    by auto
  then show ?case
    by (simp add: naive_inner_eq Cons.IH algebra_simps Un_assoc)
qed

lemma naive_sumset_eq:
  "naive_sumset a b =
     \<lparr>sumset = (\<lambda>(x, y). x + y) ` (set a \<times> set b),
      size_res = int (card ((\<lambda>(x, y). x + y) ` (set a \<times> set b))),
      algorithm = ''naive'',
      operations = int (length a) * int (length b)\<rparr>"
  by (simp add: naive_sumset_def naive_outer_eq)

lemma py_min_eq: "xs \<noteq> [] \<Longrightarrow> py_min xs = Inr (Min (set xs))"
  by (cases xs) (simp_all add: py_min_def Min.set_eq_fold [symmetric])

lemma py_max_eq: "xs \<noteq> [] \<Longrightarrow> py_max xs = Inr (Max (set xs))"
  by (cases xs) (simp_all add: py_max_def Max.set_eq_fold [symmetric])

lemma set_item_in_range:
  "0 \<le> k \<Longrightarrow> k < int (length xs) \<Longrightarrow> set_item xs k v = Inr (xs[nat k := v])"
  by (simp add: set_item_def)

lemma bucket_inner_eq:
  "\<forall>y\<in>set b. 0 \<le> x + y - m \<and> x + y - m < int (length hit) \<Longrightarrow>
   \<exists>hit'. bucket_inner m x b (hit, n) = Inr (hit', n + int (length b))
     \<and> length hit' = length hit
     \<and> (\<forall>i<length hit. hit' ! i = (hit ! i \<or> (\<exists>y\<in>set b. int i = x + y - m)))"
proof (induction b arbitrary: hit n)
  case Nil
  then show ?case by simp
next
  case (Cons y ys)
  let ?k = "x + y - m"
  let ?h = "hit[nat ?k := True]"
  from Cons.prems have k: "0 \<le> ?k" "?k < int (length hit)" by auto
  have rest: "\<forall>y\<in>set ys. 0 \<le> x + y - m \<and> x + y - m < int (length ?h)"
    using Cons.prems by auto
  from Cons.IH [OF rest, of "n + 1"] obtain hit' where
    h: "bucket_inner m x ys (?h, n + 1) = Inr (hit', n + 1 + int (length ys))"
       "length hit' = length ?h"
       "\<forall>i<length ?h. hit' ! i = (?h ! i \<or> (\<exists>y\<in>set ys. int i = x + y - m))"
    by blast
  have step: "bucket_inner m x (y # ys) (hit, n) = Inr (hit', n + int (length (y # ys)))"
    using h(1) k by (simp add: set_item_in_range py_bind_def algebra_simps)
  have "\<forall>i<length hit. hit' ! i = (hit ! i \<or> (\<exists>y'\<in>set (y # ys). int i = x + y' - m))"
  proof (intro allI impI)
    fix i assume i: "i < length hit"
    have "?h ! i = (hit ! i \<or> int i = ?k)"
      using i k by (cases "i = nat ?k") auto
    with h(3) i show "hit' ! i = (hit ! i \<or> (\<exists>y'\<in>set (y # ys). int i = x + y' - m))"
      by auto
  qed
  with step h(2) show ?case by auto
qed

lemma bucket_outer_eq:
  "\<forall>x\<in>set a. \<forall>y\<in>set b. 0 \<le> x + y - m \<and> x + y - m < int (length hit) \<Longrightarrow>
   \<exists>hit'. bucket_outer m a b (hit, n) = Inr (hit', n + int (length a) * int (length b))
     \<and> length hit' = length hit
     \<and> (\<forall>i<length hit. hit' ! i = (hit ! i \<or> (\<exists>x\<in>set a. \<exists>y\<in>set b. int i = x + y - m)))"
proof (induction a arbitrary: hit n)
  case Nil
  then show ?case by simp
next
  case (Cons x xs)
  from Cons.prems have "\<forall>y\<in>set b. 0 \<le> x + y - m \<and> x + y - m < int (length hit)"
    by simp
  from bucket_inner_eq [OF this, of n] obtain h1 where
    h1: "bucket_inner m x b (hit, n) = Inr (h1, n + int (length b))"
        "length h1 = length hit"
        "\<forall>i<length hit. h1 ! i = (hit ! i \<or> (\<exists>y\<in>set b. int i = x + y - m))"
    by blast
  have rest: "\<forall>x\<in>set xs. \<forall>y\<in>set b. 0 \<le> x + y - m \<and> x + y - m < int (length h1)"
    using Cons.prems h1(2) by simp
  from Cons.IH [OF rest, of "n + int (length b)"] obtain h2 where
    h2: "bucket_outer m xs b (h1, n + int (length b)) =
           Inr (h2, n + int (length b) + int (length xs) * int (length b))"
        "length h2 = length h1"
        "\<forall>i<length h1. h2 ! i = (h1 ! i \<or> (\<exists>x\<in>set xs. \<exists>y\<in>set b. int i = x + y - m))"
    by blast
  have step: "bucket_outer m (x # xs) b (hit, n) =
                Inr (h2, n + int (length (x # xs)) * int (length b))"
    using h1(1) h2(1) by (simp add: py_bind_def algebra_simps)
  have "\<forall>i<length hit. h2 ! i =
          (hit ! i \<or> (\<exists>x'\<in>set (x # xs). \<exists>y\<in>set b. int i = x' + y - m))"
    using h1(2,3) h2(3) by auto
  with step h1(2) h2(2) show ?case by auto
qed

lemma enumerate_collect_gen:
  "set (map (\<lambda>(i, v). g i) (filter (\<lambda>(i, v). P v) (enumerate 0 xs))) =
     {g i | i. i < length xs \<and> P (xs ! i)}"
  by (auto simp: in_set_enumerate_eq image_iff)

lemma sum_bounds:
  assumes "a \<noteq> []" "b \<noteq> []" "x \<in> set a" "y \<in> set b"
  shows "0 \<le> x + y - (Min (set a) + Min (set b))"
    and "x + y - (Min (set a) + Min (set b)) <
           int (nat (Max (set a) + Max (set b) - (Min (set a) + Min (set b)) + 1))"
proof -
  have "Min (set a) \<le> x" "x \<le> Max (set a)" "Min (set b) \<le> y" "y \<le> Max (set b)"
    using assms by simp_all
  then show "0 \<le> x + y - (Min (set a) + Min (set b))"
    and "x + y - (Min (set a) + Min (set b)) <
           int (nat (Max (set a) + Max (set b) - (Min (set a) + Min (set b)) + 1))"
    by linarith+
qed

lemma bucket_sumset_eq:
  assumes "a \<noteq> []" "b \<noteq> []"
  shows "bucket_sumset mem a b =
     (if sys_maxsize < Max (set a) + Max (set b) - (Min (set a) + Min (set b)) + 1
      then Inl OverflowError
      else if int mem < Max (set a) + Max (set b) - (Min (set a) + Min (set b)) + 1
      then Inl MemoryError
      else Inr \<lparr>sumset = (\<lambda>(x, y). x + y) ` (set a \<times> set b),
                size_res = int (card ((\<lambda>(x, y). x + y) ` (set a \<times> set b))),
                algorithm = ''bucket'',
                operations = int (length a) * int (length b)\<rparr>)"
proof -
  let ?m = "Min (set a) + Min (set b)"
  let ?M = "Max (set a) + Max (set b)"
  let ?hit0 = "replicate (nat (?M - ?m + 1)) False"
  have rng: "\<forall>x\<in>set a. \<forall>y\<in>set b. 0 \<le> x + y - ?m \<and> x + y - ?m < int (length ?hit0)"
    using sum_bounds [OF assms] by simp
  from bucket_outer_eq [OF rng, of 0] obtain hit where
    h: "bucket_outer ?m a b (?hit0, 0) = Inr (hit, int (length a) * int (length b))"
       "length hit = length ?hit0"
       "\<forall>i<length ?hit0. hit ! i =
          (?hit0 ! i \<or> (\<exists>x\<in>set a. \<exists>y\<in>set b. int i = x + y - ?m))"
    by auto
  have hit: "\<forall>i<length hit. hit ! i = (\<exists>x\<in>set a. \<exists>y\<in>set b. int i = x + y - ?m)"
    using h(2,3) by simp
  have "{int i + ?m | i. i < length hit \<and> hit ! i} = (\<lambda>(x, y). x + y) ` (set a \<times> set b)"
    (is "?L = ?R")
  proof (rule set_eqI)
    fix s
    show "s \<in> ?L \<longleftrightarrow> s \<in> ?R"
    proof
      assume "s \<in> ?L"
      then obtain i where i: "s = int i + ?m" "i < length hit" "hit ! i" by blast
      with hit obtain x y where "x \<in> set a" "y \<in> set b" "int i = x + y - ?m" by blast
      with i(1) show "s \<in> ?R" by force
    next
      assume "s \<in> ?R"
      then obtain x y where xy: "x \<in> set a" "y \<in> set b" "s = x + y" by auto
      from rng xy have k: "0 \<le> x + y - ?m" "x + y - ?m < int (length hit)"
        using h(2) by auto
      let ?i = "nat (x + y - ?m)"
      have "?i < length hit" "int ?i = x + y - ?m" using k by auto
      moreover from this hit xy have "hit ! ?i" by blast
      ultimately show "s \<in> ?L" using xy(3) by (intro CollectI exI [of _ ?i]) simp
    qed
  qed
  then have res: "set (map (\<lambda>(i, v). int i + ?m) (filter (\<lambda>(i, v). v) (enumerate 0 hit))) =
                  (\<lambda>(x, y). x + y) ` (set a \<times> set b)"
    using enumerate_collect_gen [of "\<lambda>i. int i + ?m" "\<lambda>v. v" hit] by simp
  show ?thesis
    using assms h(1) res
    by (simp add: bucket_sumset_def py_min_eq py_max_eq py_bind_def Let_def list_repeat_def)
qed

subsection \<open>The transform length\<close>

lemma pad_loop_returns:
  "1 \<le> f \<Longrightarrow> \<exists>k. pad_loop f sz = Some (f * 2 ^ k) \<and> sz \<le> f * 2 ^ k
      \<and> (0 < k \<longrightarrow> f * 2 ^ (k - 1) < sz)"
proof (induction "nat (sz - f)" arbitrary: f rule: less_induct)
  case less
  show ?case
  proof (cases "f < sz")
    case False
    then have "pad_loop f sz = Some (f * 2 ^ 0)" "sz \<le> f * 2 ^ 0"
      by (simp_all add: pad_loop.simps)
    then show ?thesis by blast
  next
    case True
    with less.prems have "nat (sz - f * 2) < nat (sz - f)" "1 \<le> f * 2" by linarith+
    from less.hyps [OF this] obtain k where
      k: "pad_loop (f * 2) sz = Some (f * 2 * 2 ^ k)" "sz \<le> f * 2 * 2 ^ k"
         "0 < k \<longrightarrow> f * 2 * 2 ^ (k - 1) < sz"
      by blast
    have "pad_loop f sz = Some (f * 2 ^ Suc k)"
      using True k(1) by (subst pad_loop.simps) (simp add: mult.assoc)
    moreover have "sz \<le> f * 2 ^ Suc k" using k(2) by (simp add: mult.assoc)
    moreover have "f * 2 ^ (Suc k - 1) < sz"
    proof (cases k)
      case 0
      with True show ?thesis by simp
    next
      case (Suc k')
      with k(3) show ?thesis by (simp add: mult.assoc)
    qed
    ultimately show ?thesis by blast
  qed
qed

lemma fft_size_of_returns:
  "\<exists>k. fft_size_of sz = Some (2 ^ Suc k) \<and> 2 * sz \<le> 2 ^ Suc k
      \<and> (0 < k \<longrightarrow> 2 ^ Suc k < 4 * sz)"
proof -
  from pad_loop_returns [of 1 sz] obtain k where
    k: "pad_loop 1 sz = Some (2 ^ k)" "sz \<le> 2 ^ k" "0 < k \<longrightarrow> 2 ^ (k - 1) < sz"
    by auto
  have "fft_size_of sz = Some (2 ^ Suc k)" using k(1) by (simp add: fft_size_of_def)
  moreover have "2 * sz \<le> 2 ^ Suc k" using k(2) by simp
  moreover have "0 < k \<longrightarrow> (2::int) ^ Suc k < 4 * sz"
  proof
    assume "0 < k"
    then obtain k' where k': "k = Suc k'" by (cases k) auto
    with k(3) have "(2::int) ^ k' < sz" by simp
    then show "(2::int) ^ Suc k < 4 * sz" using k' by simp
  qed
  ultimately show ?thesis by blast
qed

lemma floor_log2_power: "floor_log2 (2 ^ k) = k"
proof (induction k)
  case 0
  show ?case by (simp add: floor_log2.simps)
next
  case (Suc k)
  have "\<not> (2::nat) ^ Suc k < 2" by simp
  then show ?case using Suc by (subst floor_log2.simps) simp
qed

lemma floor_log2_floor: "0 < n \<Longrightarrow> int (floor_log2 n) = \<lfloor>log 2 (real n)\<rfloor>"
proof (induction n rule: floor_log2.induct)
  case (1 n)
  show ?case
  proof (cases "n < 2")
    case True
    with "1.prems" have "n = 1" by simp
    then show ?thesis by (simp add: floor_log2.simps)
  next
    case False
    then have pos: "0 < n div 2" by simp
    have "int (floor_log2 n) = int (floor_log2 (n div 2)) + 1"
      using False by (subst floor_log2.simps) simp
    also have "\<dots> = \<lfloor>log 2 (real (n div 2))\<rfloor> + 1"
      using "1.IH" [OF False pos] by simp
    also have "\<dots> = \<lfloor>log 2 (real n)\<rfloor>"
      using False floor_log2_div2 [of n] by simp
    finally show ?thesis .
  qed
qed


subsection \<open>The transform-based algorithm\<close>

lemma fill_ones_eq:
  "\<forall>x\<in>set xs. 0 \<le> x \<and> x < int (length poly) \<Longrightarrow>
   \<exists>p. fill_ones poly xs = Inr p \<and> length p = length poly
     \<and> (\<forall>i<length poly. p ! i = (if int i \<in> set xs then 1 else poly ! i))"
proof (induction xs arbitrary: poly)
  case Nil
  then show ?case by simp
next
  case (Cons x xs)
  let ?q = "poly[nat x := 1]"
  from Cons.prems have x: "0 \<le> x" "x < int (length poly)" by auto
  have "\<forall>x\<in>set xs. 0 \<le> x \<and> x < int (length ?q)" using Cons.prems by auto
  from Cons.IH [OF this] obtain p where
    p: "fill_ones ?q xs = Inr p" "length p = length ?q"
       "\<forall>i<length ?q. p ! i = (if int i \<in> set xs then 1 else ?q ! i)"
    by blast
  have "fill_ones poly (x # xs) = Inr p"
    using p(1) x by (simp add: set_item_in_range py_bind_def)
  moreover have "\<forall>i<length poly. p ! i = (if int i \<in> set (x # xs) then 1 else poly ! i)"
  proof (intro allI impI)
    fix i assume i: "i < length poly"
    have "?q ! i = (if int i = x then 1 else poly ! i)"
      using i x by (cases "i = nat x") auto
    with p(3) i show "p ! i = (if int i \<in> set (x # xs) then 1 else poly ! i)"
      by auto
  qed
  ultimately show ?case using p(2) by auto
qed

lemma sum_list_indicator_nonneg:
  fixes xs :: "real list"
  shows "\<forall>x\<in>set xs. x = 0 \<or> x = 1 \<Longrightarrow> 0 \<le> sum_list xs"
  by (rule sum_list_nonneg) auto

lemma sum_list_indicator:
  fixes xs :: "real list"
  shows "\<forall>x\<in>set xs. x = 0 \<or> x = 1 \<Longrightarrow> (sum_list xs > 0.5) = (1 \<in> set xs)"
proof (induction xs)
  case Nil
  show ?case by simp
next
  case (Cons x xs)
  then have rest: "\<forall>x\<in>set xs. x = 0 \<or> x = 1" and x: "x = 0 \<or> x = 1" by simp_all
  have nn: "0 \<le> sum_list xs" by (rule sum_list_indicator_nonneg [OF rest])
  from x show ?case
  proof
    assume "x = 0"
    then show ?thesis using Cons.IH [OF rest] by simp
  next
    assume "x = 1"
    then show ?thesis using nn by simp
  qed
qed

lemma cyclic_convolution_nth:
  "i < length u \<Longrightarrow>
   cyclic_convolution u v ! i =
     (\<Sum>j\<leftarrow>[0..<length u]. u ! j * v ! ((i + length u - j) mod length u))"
  by (simp add: cyclic_convolution_def Let_def)

lemma length_cyclic_convolution: "length (cyclic_convolution u v) = length u"
  by (simp add: cyclic_convolution_def Let_def)

lemma cyclic_index:
  fixes i j n ma mb :: nat
  assumes "i < n" "j \<le> ma" "ma + mb < n"
  shows "((i + n - j) mod n \<le> mb \<and> P ((i + n - j) mod n)) = (j \<le> i \<and> i - j \<le> mb \<and> P (i - j))"
proof (cases "j \<le> i")
  case True
  then have e: "i + n - j = (i - j) + n" by arith
  have lt: "i - j < n" using assms(1) by arith
  have "(i + n - j) mod n = (i - j) mod n" unfolding e by (rule mod_add_self2)
  also have "\<dots> = i - j" using lt by (rule mod_less)
  finally have m: "(i + n - j) mod n = i - j" .
  show ?thesis unfolding m using True by blast
next
  case False
  then have "i + n - j < n" using assms by arith
  then have m: "(i + n - j) mod n = i + n - j" by (rule mod_less)
  have "\<not> i + n - j \<le> mb" using assms False by arith
  then show ?thesis unfolding m using False by blast
qed

lemma convolution_indicator:
  fixes A B :: "int set" and u v :: "real list"
  assumes len: "length v = length u"
    and u: "\<forall>i<length u. u ! i = (if int i \<in> A then 1 else 0)"
    and v: "\<forall>i<length u. v ! i = (if int i \<in> B then 1 else 0)"
    and A: "\<forall>x\<in>A. 0 \<le> x \<and> x \<le> int ma"
    and B: "\<forall>y\<in>B. 0 \<le> y \<and> y \<le> int mb"
    and n: "ma + mb < length u"
    and i: "i < length u"
  shows "(cyclic_convolution u v ! i > 0.5) = (\<exists>x\<in>A. \<exists>y\<in>B. int i = x + y)"
proof -
  let ?n = "length u"
  let ?f = "\<lambda>j. u ! j * v ! ((i + ?n - j) mod ?n)"
  have npos: "0 < ?n" using i by (cases u) simp_all
  have ind: "\<forall>t\<in>set (map ?f [0..<?n]). t = 0 \<or> t = 1"
  proof
    fix t assume "t \<in> set (map ?f [0..<?n])"
    then obtain j where j: "j < ?n" "t = ?f j" by auto
    have "(i + ?n - j) mod ?n < ?n" using npos by simp
    with u v j show "t = 0 \<or> t = 1" by simp
  qed
  have "(cyclic_convolution u v ! i > 0.5) = (1 \<in> set (map ?f [0..<?n]))"
    using sum_list_indicator [OF ind] i by (simp add: cyclic_convolution_nth)
  also have "\<dots> = (\<exists>j<?n. ?f j = 1)" by (auto simp: image_iff)
  also have "\<dots> = (\<exists>j<?n. int j \<in> A \<and> int ((i + ?n - j) mod ?n) \<in> B)"
  proof -
    have "?f j = 1 \<longleftrightarrow> int j \<in> A \<and> int ((i + ?n - j) mod ?n) \<in> B" if "j < ?n" for j
    proof -
      have "(i + ?n - j) mod ?n < ?n" using npos by simp
      with u v that show ?thesis by simp
    qed
    then show ?thesis by blast
  qed
  also have "\<dots> = (\<exists>x\<in>A. \<exists>y\<in>B. int i = x + y)"
  proof
    assume "\<exists>j<?n. int j \<in> A \<and> int ((i + ?n - j) mod ?n) \<in> B"
    then obtain j where j: "j < ?n" "int j \<in> A" "int ((i + ?n - j) mod ?n) \<in> B" by blast
    from A j(2) have jm: "j \<le> ma" by auto
    from B j(3) have "(i + ?n - j) mod ?n \<le> mb" by auto
    with cyclic_index [OF i jm n, of "\<lambda>k. int k \<in> B"] j(3)
    have ji: "j \<le> i \<and> int (i - j) \<in> B" by blast
    then have "int i = int j + int (i - j)" by linarith
    with j(2) ji show "\<exists>x\<in>A. \<exists>y\<in>B. int i = x + y" by blast
  next
    assume "\<exists>x\<in>A. \<exists>y\<in>B. int i = x + y"
    then obtain x y where xy: "x \<in> A" "y \<in> B" "int i = x + y" by blast
    let ?j = "nat x"
    from A B xy have b: "0 \<le> x" "x \<le> int ma" "0 \<le> y" "y \<le> int mb" by auto
    then have jm: "?j \<le> ma" and ji: "?j \<le> i" and d: "i - ?j = nat y" and dm: "i - ?j \<le> mb"
      using xy(3) by linarith+
    have "int (nat y) \<in> B" using b(3) xy(2) by simp
    then have "int (i - ?j) \<in> B" using d by metis
    with cyclic_index [OF i jm n, of "\<lambda>k. int k \<in> B"] ji dm
    have "int ((i + ?n - ?j) mod ?n) \<in> B" by blast
    moreover have "?j < ?n" using ji i by simp
    moreover have "int ?j \<in> A" using b(1) xy(1) by simp
    ultimately show "\<exists>j<?n. int j \<in> A \<and> int ((i + ?n - j) mod ?n) \<in> B" by blast
  qed
  finally show ?thesis .
qed

lemma shifted_bounds:
  assumes "a \<noteq> []"
  shows "py_max (map (\<lambda>x. x - Min (set a)) a) = Inr (Max (set a) - Min (set a))"
    and "\<forall>x\<in>set (map (\<lambda>x. x - Min (set a)) a). 0 \<le> x \<and> x \<le> Max (set a) - Min (set a)"
proof -
  let ?f = "\<lambda>x::int. x - Min (set a)"
  have ne: "set a \<noteq> {}" using assms by simp
  have "mono ?f" by (rule monoI) simp
  from mono_Max_commute [OF this _ ne] have "Max (?f ` set a) = Max (set a) - Min (set a)"
    by simp
  moreover have "map ?f a \<noteq> []" using assms by simp
  ultimately show "py_max (map ?f a) = Inr (Max (set a) - Min (set a))"
    by (simp add: py_max_eq)
  show "\<forall>x\<in>set (map ?f a). 0 \<le> x \<and> x \<le> Max (set a) - Min (set a)"
    by auto
qed

lemma half_bound:
  fixes x y p :: int
  shows "2 * (x + y + 1) \<le> p \<Longrightarrow> 0 \<le> x \<Longrightarrow> 0 \<le> y \<Longrightarrow> x + y < p"
  by arith

lemma fft_sumset_eq:
  assumes "a \<noteq> []" "b \<noteq> []"
  shows "\<exists>k.
       fft_size_of (Max (set a) - Min (set a) + (Max (set b) - Min (set b)) + 1) =
         Some (2 ^ Suc k)
     \<and> 2 * (Max (set a) - Min (set a) + (Max (set b) - Min (set b)) + 1) \<le> 2 ^ Suc k
     \<and> (if sys_maxsize < 2 ^ Suc k * 8
        then fft_vectors mem a b = Some (Inl ValueError)
           \<and> fft_sumset mem a b = Some (Inl ValueError)
        else if int mem < 2 ^ Suc k
        then fft_vectors mem a b = Some (Inl MemoryError)
           \<and> fft_sumset mem a b = Some (Inl MemoryError)
        else (\<exists>pa pb.
               fft_vectors mem a b = Some (Inr (Min (set a), Min (set b), 2 ^ Suc k, pa, pb))
             \<and> int (length pa) = 2 ^ Suc k \<and> int (length pb) = 2 ^ Suc k
             \<and> int (length (cyclic_convolution pa pb)) = 2 ^ Suc k)
           \<and> fft_sumset mem a b =
               Some (Inr \<lparr>sumset = (\<lambda>(x, y). x + y) ` (set a \<times> set b),
                          size_res = int (card ((\<lambda>(x, y). x + y) ` (set a \<times> set b))),
                          algorithm = ''fft'',
                          operations = 3 * 2 ^ Suc k * int (Suc k)\<rparr>))"
proof -
  let ?mina = "Min (set a)" and ?minb = "Min (set b)"
  let ?ash = "map (\<lambda>x. x - ?mina) a" and ?bsh = "map (\<lambda>x. x - ?minb) b"
  let ?ma = "Max (set a) - ?mina" and ?mb = "Max (set b) - ?minb"
  let ?sz = "?ma + ?mb + 1"
  from fft_size_of_returns [of ?sz] obtain k where
    k: "fft_size_of ?sz = Some (2 ^ Suc k)" "2 * ?sz \<le> 2 ^ Suc k"
    by blast
  let ?N = "(2::int) ^ Suc k"
  let ?n = "(2::nat) ^ Suc k"
  have Nn: "?N = int ?n" by simp
  then have natN: "nat ?N = ?n" by (simp only: nat_int)
  have ma0: "0 \<le> ?ma" and mb0: "0 \<le> ?mb" using assms by simp_all
  have szN: "?ma + ?mb < ?N" by (rule half_bound [OF k(2) ma0 mb0])
  note A = shifted_bounds [OF assms(1)] and B = shifted_bounds [OF assms(2)]
  let ?z = "replicate ?n (0::real)"
  have "\<forall>x\<in>set ?ash. 0 \<le> x \<and> x < int (length ?z)"
  proof
    fix x assume "x \<in> set ?ash"
    with A(2) have "0 \<le> x" "x \<le> ?ma" by blast+
    moreover have "int (length ?z) = ?N" by simp
    ultimately show "0 \<le> x \<and> x < int (length ?z)" using szN mb0 by linarith
  qed
  from fill_ones_eq [OF this] obtain pa where
    pa: "fill_ones ?z ?ash = Inr pa" "length pa = ?n"
        "\<forall>i<?n. pa ! i = (if int i \<in> set ?ash then 1 else 0)"
    by auto
  have "\<forall>x\<in>set ?bsh. 0 \<le> x \<and> x < int (length ?z)"
  proof
    fix x assume "x \<in> set ?bsh"
    with B(2) have "0 \<le> x" "x \<le> ?mb" by blast+
    moreover have "int (length ?z) = ?N" by simp
    ultimately show "0 \<le> x \<and> x < int (length ?z)" using szN ma0 by linarith
  qed
  from fill_ones_eq [OF this] obtain pb where
    pb: "fill_ones ?z ?bsh = Inr pb" "length pb = ?n"
        "\<forall>i<?n. pb ! i = (if int i \<in> set ?bsh then 1 else 0)"
    by auto
  let ?prod = "cyclic_convolution pa pb"
  have lenprod: "length ?prod = ?n" by (simp add: length_cyclic_convolution pa(2))
  have bound: "nat ?ma + nat ?mb < length pa"
  proof -
    have "int (nat ?ma + nat ?mb) < int ?n" using szN ma0 mb0 by simp
    then show ?thesis unfolding pa(2) by (simp only: of_nat_less_iff)
  qed
  have hit: "(?prod ! i > 0.5) = (\<exists>x\<in>set ?ash. \<exists>y\<in>set ?bsh. int i = x + y)"
    if "i < ?n" for i
  proof (rule convolution_indicator [where ma = "nat ?ma" and mb = "nat ?mb"])
    show "length pb = length pa" by (simp add: pa(2) pb(2))
    show "\<forall>i<length pa. pa ! i = (if int i \<in> set ?ash then 1 else 0)"
      using pa(3) unfolding pa(2) .
    show "\<forall>i<length pa. pb ! i = (if int i \<in> set ?bsh then 1 else 0)"
      using pb(3) unfolding pa(2) .
    show "\<forall>x\<in>set ?ash. 0 \<le> x \<and> x \<le> int (nat ?ma)" using A(2) ma0 by simp
    show "\<forall>y\<in>set ?bsh. 0 \<le> y \<and> y \<le> int (nat ?mb)" using B(2) mb0 by simp
    show "nat ?ma + nat ?mb < length pa" by (rule bound)
    show "i < length pa" using that unfolding pa(2) .
  qed
  let ?S = "(\<lambda>(x, y). x + y) ` (set a \<times> set b)"
  have "{int i + ?mina + ?minb | i. i < length ?prod \<and> ?prod ! i > 0.5} = ?S" (is "?L = _")
  proof (rule set_eqI)
    fix s
    show "s \<in> ?L \<longleftrightarrow> s \<in> ?S"
    proof
      assume "s \<in> ?L"
      then obtain i where i: "s = int i + ?mina + ?minb" "i < ?n" "?prod ! i > 0.5"
        unfolding lenprod by blast
      from hit [OF i(2)] i(3) obtain x y where
        xy: "x \<in> set ?ash" "y \<in> set ?bsh" "int i = x + y" by blast
      from xy(1,2) obtain x' y' where
        "x' \<in> set a" "x = x' - ?mina" "y' \<in> set b" "y = y' - ?minb" by auto
      with i(1) xy(3) have "s = x' + y'" "x' \<in> set a" "y' \<in> set b" by simp_all
      then show "s \<in> ?S" by force
    next
      assume "s \<in> ?S"
      then obtain x y where xy: "x \<in> set a" "y \<in> set b" "s = x + y" by auto
      let ?x = "x - ?mina" and ?y = "y - ?minb"
      have sh: "?x \<in> set ?ash" "?y \<in> set ?bsh" using xy by simp_all
      with A(2) B(2) have r: "0 \<le> ?x" "?x \<le> ?ma" "0 \<le> ?y" "?y \<le> ?mb" by blast+
      let ?i = "nat (?x + ?y)"
      have ii: "int ?i = ?x + ?y" using r by simp
      have "int ?i < int ?n" using r szN ii by simp
      then have lt: "?i < ?n" by (simp only: of_nat_less_iff)
      from hit [OF lt] sh ii have "?prod ! ?i > 0.5" by blast
      moreover have "s = int ?i + ?mina + ?minb" using ii xy(3) by simp
      ultimately show "s \<in> ?L" using lt unfolding lenprod by blast
    qed
  qed
  then have res: "set (map (\<lambda>(i, c). int i + ?mina + ?minb)
                    (filter (\<lambda>(i, c). c > 0.5) (enumerate 0 ?prod))) = ?S"
    using enumerate_collect_gen [of "\<lambda>i. int i + ?mina + ?minb" "\<lambda>c. c > 0.5" ?prod]
    by simp
  have log: "floor_log2 ?n = Suc k" by (rule floor_log2_power)
  have vecs: "fft_vectors mem a b =
      fft_bind (Some (np_zeros mem ?N)) (\<lambda>zeros_a.
      fft_bind (Some (np_zeros mem ?N)) (\<lambda>zeros_b.
      fft_bind (Some (fill_ones zeros_a ?ash)) (\<lambda>poly_a.
      fft_bind (Some (fill_ones zeros_b ?bsh)) (\<lambda>poly_b.
        Some (Inr (?mina, ?minb, ?N, poly_a, poly_b))))))"
    unfolding fft_vectors_def using assms
    by (simp only: py_min_eq A(1) B(1) fft_bind_def Let_def k(1) option.case sum.case
        option.map simp_thms)
  have ne: "\<not> (a = [] \<or> b = [])" using assms by simp
  have final: "(if sys_maxsize < ?N * 8
        then fft_vectors mem a b = Some (Inl ValueError)
           \<and> fft_sumset mem a b = Some (Inl ValueError)
        else if int mem < ?N
        then fft_vectors mem a b = Some (Inl MemoryError)
           \<and> fft_sumset mem a b = Some (Inl MemoryError)
        else (\<exists>pa pb.
               fft_vectors mem a b = Some (Inr (?mina, ?minb, ?N, pa, pb))
             \<and> int (length pa) = ?N \<and> int (length pb) = ?N
             \<and> int (length (cyclic_convolution pa pb)) = ?N)
           \<and> fft_sumset mem a b =
               Some (Inr \<lparr>sumset = ?S, size_res = int (card ?S), algorithm = ''fft'',
                          operations = 3 * 2 ^ Suc k * int (Suc k)\<rparr>))"
  proof (cases "sys_maxsize < ?N * 8")
    case True
    then have z: "np_zeros mem ?N = Inl ValueError" by (simp add: np_zeros_def)
    have s1: "fft_vectors mem a b = Some (Inl ValueError)"
      unfolding vecs z by (simp add: fft_bind_def)
    have "fft_sumset mem a b = Some (Inl ValueError)"
      unfolding fft_sumset_def s1 using ne by (simp add: fft_bind_def)
    with s1 True show ?thesis by simp
  next
    case False
    note big = this
    show ?thesis
    proof (cases "int mem < ?N")
      case True
      then have z: "np_zeros mem ?N = Inl MemoryError" using big by (simp add: np_zeros_def)
      have s1: "fft_vectors mem a b = Some (Inl MemoryError)"
        unfolding vecs z by (simp add: fft_bind_def)
      have "fft_sumset mem a b = Some (Inl MemoryError)"
        unfolding fft_sumset_def s1 using ne by (simp add: fft_bind_def)
      with s1 True big show ?thesis by simp
    next
      case False
      have "np_zeros mem ?N = Inr (replicate (nat ?N) 0)"
        using big False by (simp add: np_zeros_def)
      then have z: "np_zeros mem ?N = Inr ?z" by (simp only: natN)
      have s1: "fft_vectors mem a b = Some (Inr (?mina, ?minb, ?N, pa, pb))"
        unfolding vecs z
        by (simp only: fft_bind_def pa(1) pb(1) option.case sum.case)
      have lens: "int (length pa) = ?N" "int (length pb) = ?N" "int (length ?prod) = ?N"
        by (simp_all only: pa(2) pb(2) lenprod Nn)
      have "fft_sumset mem a b =
          Some (Inr \<lparr>sumset = ?S, size_res = int (card ?S), algorithm = ''fft'',
                     operations = 3 * 2 ^ Suc k * int (Suc k)\<rparr>)"
        unfolding fft_sumset_def s1 using ne
        by (simp only: fft_bind_def Let_def natN res log if_False simp_thms option.case
            sum.case prod.case)
      with s1 lens big False show ?thesis by auto
    qed
  qed
  from k final show ?thesis by blast
qed

subsection \<open>Empty inputs and cardinalities\<close>

lemma naive_sumset_empty:
  assumes "a = [] \<or> b = []"
  shows "naive_sumset a b =
           \<lparr>sumset = {}, size_res = 0, algorithm = ''naive'', operations = 0\<rparr>"
proof -
  from assms have "set a \<times> set b = {}" "int (length a) * int (length b) = 0" by auto
  then show ?thesis by (simp add: naive_sumset_eq)
qed

lemma bucket_sumset_empty:
  "a = [] \<or> b = [] \<Longrightarrow>
   bucket_sumset mem a b =
     Inr \<lparr>sumset = {}, size_res = 0, algorithm = ''bucket'', operations = 0\<rparr>"
  by (simp add: bucket_sumset_def)

lemma fft_sumset_empty:
  "a = [] \<or> b = [] \<Longrightarrow>
   fft_sumset mem a b =
     Some (Inr \<lparr>sumset = {}, size_res = 0, algorithm = ''fft'', operations = 0\<rparr>)"
  by (simp add: fft_sumset_def)

lemma sums_card_upper:
  "card ((\<lambda>(x, y). x + y) ` (set a \<times> set b)) \<le> length a * length b"
proof -
  have "card ((\<lambda>(x, y). x + y) ` (set a \<times> set b)) \<le> card (set a \<times> set b)"
    by (rule card_image_le) simp
  also have "\<dots> = card (set a) * card (set b)" by (rule card_cartesian_product)
  also have "\<dots> \<le> length a * length b"
    by (rule mult_le_mono) (rule card_length)+
  finally show ?thesis .
qed

lemma sums_card_lower:
  fixes a b :: "int list"
  assumes "a \<noteq> []" "b \<noteq> []"
  shows "max (card (set a)) (card (set b)) \<le> card ((\<lambda>(x, y). x + y) ` (set a \<times> set b))"
proof -
  let ?S = "(\<lambda>(x, y). x + y) ` (set a \<times> set b)"
  have fin: "finite ?S" by simp
  obtain x0 where x0: "x0 \<in> set a" using assms(1) by (cases a) auto
  obtain y0 where y0: "y0 \<in> set b" using assms(2) by (cases b) auto
  have "(\<lambda>x. x + y0) ` set a \<subseteq> ?S" using y0 by force
  then have "card ((\<lambda>x. x + y0) ` set a) \<le> card ?S" by (rule card_mono [OF fin])
  moreover have "card ((\<lambda>x. x + y0) ` set a) = card (set a)"
    by (rule card_image) (simp add: inj_on_def)
  ultimately have A: "card (set a) \<le> card ?S" by simp
  have "(\<lambda>y. x0 + y) ` set b \<subseteq> ?S" using x0 by force
  then have "card ((\<lambda>y. x0 + y) ` set b) \<le> card ?S" by (rule card_mono [OF fin])
  moreover have "card ((\<lambda>y. x0 + y) ` set b) = card (set b)"
    by (rule card_image) (simp add: inj_on_def)
  ultimately have B: "card (set b) \<le> card ?S" by simp
  from A B show ?thesis by simp
qed

lemma fft_sumset_returns_sums:
  assumes "fft_sumset mem a b = Some (Inr r)"
  shows "sumset r = (\<lambda>(x, y). x + y) ` (set a \<times> set b)"
    and "size_res r = int (card ((\<lambda>(x, y). x + y) ` (set a \<times> set b)))"
proof -
  let ?S = "(\<lambda>(x, y). x + y) ` (set a \<times> set b)"
  have "sumset r = ?S \<and> size_res r = int (card ?S)"
  proof (cases "a = [] \<or> b = []")
    case True
    then have "set a \<times> set b = {}" by auto
    with fft_sumset_empty [OF True, of mem] assms show ?thesis by simp
  next
    case False
    then have ne: "a \<noteq> []" "b \<noteq> []" by simp_all
    from fft_sumset_eq [OF ne, of mem] assms show ?thesis
      by (auto split: if_splits)
  qed
  then show "sumset r = ?S" and "size_res r = int (card ?S)" by simp_all
qed

lemma bucket_sumset_returns_sums:
  assumes "bucket_sumset mem a b = Inr r"
  shows "sumset r = (\<lambda>(x, y). x + y) ` (set a \<times> set b)"
    and "size_res r = int (card ((\<lambda>(x, y). x + y) ` (set a \<times> set b)))"
proof -
  let ?S = "(\<lambda>(x, y). x + y) ` (set a \<times> set b)"
  have "sumset r = ?S \<and> size_res r = int (card ?S)"
  proof (cases "a = [] \<or> b = []")
    case True
    then have "set a \<times> set b = {}" by auto
    with bucket_sumset_empty [OF True, of mem] assms show ?thesis by simp
  next
    case False
    then have ne: "a \<noteq> []" "b \<noteq> []" by simp_all
    from bucket_sumset_eq [OF ne, of mem] assms show ?thesis
      by (auto split: if_splits)
  qed
  then show "sumset r = ?S" and "size_res r = int (card ?S)" by simp_all
qed



subsection \<open>The claims\<close>




text \<open>
  C4, as the specification states it, fails: with a duplicate in \<open>a\<close> the sumset is smaller
  than the longer input list.
\<close>

theorem sumset_lower_bound_counterexample:
  "size_res (naive_sumset [1, 1] [1]) = 1
   \<and> \<not> int (max (length [1, 1 :: int]) (length [1 :: int])) \<le> size_res (naive_sumset [1, 1] [1])"
  by (simp add: naive_sumset_def)

text \<open>
  C4, amended. For nonempty \<open>a\<close> and \<open>b\<close>, the size reported with the sumset that any of the
  three algorithms returns is the cardinality of the returned set, is at most the product of
  the two list lengths, and is at least the larger of the numbers of distinct values of \<open>a\<close>
  and of \<open>b\<close>.
\<close>

theorem sumset_size_bounds:
  assumes "a \<noteq> []" "b \<noteq> []"
    and "r = naive_sumset a b \<or> bucket_sumset mem a b = Inr r
         \<or> fft_sumset mem a b = Some (Inr r)"
  shows "size_res r = int (card (sumset r))
     \<and> size_res r \<le> int (length a) * int (length b)
     \<and> int (max (card (set a)) (card (set b))) \<le> size_res r"
proof -
  let ?S = "(\<lambda>(x, y). x + y) ` (set a \<times> set b)"
  have r: "sumset r = ?S \<and> size_res r = int (card ?S)"
    using assms(3) bucket_sumset_returns_sums [of mem a b r]
      fft_sumset_returns_sums [of mem a b r]
    by (auto simp: naive_sumset_eq)
  have up: "int (card ?S) \<le> int (length a) * int (length b)"
    using sums_card_upper [of a b] by (simp only: of_nat_mult [symmetric] of_nat_le_iff)
  have lo: "int (max (card (set a)) (card (set b))) \<le> int (card ?S)"
    using sums_card_lower [OF assms(1,2)] by (simp only: of_nat_le_iff)
  from r up lo show ?thesis by simp
qed

theorem sumset_size_bounds_witness:
  "[1, 1 :: int] \<noteq> [] \<and> [1 :: int] \<noteq> []
   \<and> bucket_sumset 1000 [1, 1] [1] =
       Inr \<lparr>sumset = {2}, size_res = 1, algorithm = ''bucket'', operations = 2\<rparr>
   \<and> fft_sumset 1000 [1, 1] [1] =
       Some (Inr \<lparr>sumset = {2}, size_res = 1, algorithm = ''fft'', operations = 6\<rparr>)
   \<and> (size_res (naive_sumset [1, 1] [1]) = int (card (sumset (naive_sumset [1, 1] [1])))
      \<and> size_res (naive_sumset [1, 1] [1]) \<le> int (length [1, 1 :: int]) * int (length [1 :: int])
      \<and> int (max (card (set [1, 1 :: int])) (card (set [1 :: int])))
          \<le> size_res (naive_sumset [1, 1] [1]))
   \<and> (size_res \<lparr>sumset = {2}, size_res = 1, algorithm = ''bucket'', operations = 2\<rparr> =
        int (card (sumset \<lparr>sumset = {2}, size_res = 1, algorithm = ''bucket'', operations = 2\<rparr>))
      \<and> size_res \<lparr>sumset = {2}, size_res = 1, algorithm = ''bucket'', operations = 2\<rparr>
          \<le> int (length [1, 1 :: int]) * int (length [1 :: int])
      \<and> int (max (card (set [1, 1 :: int])) (card (set [1 :: int])))
          \<le> size_res \<lparr>sumset = {2}, size_res = 1, algorithm = ''bucket'', operations = 2\<rparr>)
   \<and> (size_res \<lparr>sumset = {2}, size_res = 1, algorithm = ''fft'', operations = 6\<rparr> =
        int (card (sumset \<lparr>sumset = {2}, size_res = 1, algorithm = ''fft'', operations = 6\<rparr>))
      \<and> size_res \<lparr>sumset = {2}, size_res = 1, algorithm = ''fft'', operations = 6\<rparr>
          \<le> int (length [1, 1 :: int]) * int (length [1 :: int])
      \<and> int (max (card (set [1, 1 :: int])) (card (set [1 :: int])))
          \<le> size_res \<lparr>sumset = {2}, size_res = 1, algorithm = ''fft'', operations = 6\<rparr>)"
proof -
  have h1: "[1, 1 :: int] \<noteq> []" and h2: "[1 :: int] \<noteq> []" by simp_all
  have b: "bucket_sumset 1000 [1, 1] [1] =
       Inr \<lparr>sumset = {2}, size_res = 1, algorithm = ''bucket'', operations = 2\<rparr>"
    by code_simp
  have f: "fft_sumset 1000 [1, 1] [1] =
       Some (Inr \<lparr>sumset = {2}, size_res = 1, algorithm = ''fft'', operations = 6\<rparr>)"
    by code_simp
  note t = sumset_size_bounds [OF h1 h2, of _ 1000]
  note tn = t [OF disjI1, OF refl]
  note tb = t [OF disjI2, OF disjI1, OF b]
  note tf = t [OF disjI2, OF disjI2, OF f]
  show ?thesis by (intro conjI h1 h2 b f tn tb tf)
qed

text \<open>
  C5. When \<open>a\<close> or \<open>b\<close> is empty, each of the three algorithms returns the empty set with
  size 0 and operation count 0, and none of them raises.
\<close>

theorem sumset_empty_inputs:
  "a = [] \<or> b = [] \<Longrightarrow>
   naive_sumset a b = \<lparr>sumset = {}, size_res = 0, algorithm = ''naive'', operations = 0\<rparr>
   \<and> bucket_sumset mem a b =
       Inr \<lparr>sumset = {}, size_res = 0, algorithm = ''bucket'', operations = 0\<rparr>
   \<and> fft_sumset mem a b =
       Some (Inr \<lparr>sumset = {}, size_res = 0, algorithm = ''fft'', operations = 0\<rparr>)"
  by (simp only: naive_sumset_empty bucket_sumset_empty fft_sumset_empty simp_thms)

theorem sumset_empty_inputs_witness:
  "(([]::int list) = [] \<or> [5::int] = [])
   \<and> naive_sumset [] [5] = \<lparr>sumset = {}, size_res = 0, algorithm = ''naive'', operations = 0\<rparr>
   \<and> bucket_sumset 0 [] [5] =
       Inr \<lparr>sumset = {}, size_res = 0, algorithm = ''bucket'', operations = 0\<rparr>
   \<and> fft_sumset 0 [] [5] =
       Some (Inr \<lparr>sumset = {}, size_res = 0, algorithm = ''fft'', operations = 0\<rparr>)"
  using sumset_empty_inputs [of "[]" "[5]" 0] by simp



section \<open>Properties of the hill climb\<close>

lemma hill_climb_loop_evals:
  "hill_climb_loop objective lt propose n (p, pc, k, g) = Inr (b, bc, k', g') \<Longrightarrow>
   k' = k + int n"
proof (induction n arbitrary: p pc k g)
  case 0
  then show ?case by simp
next
  case (Suc n)
  from Suc.prems obtain cand g1 where pr: "propose g p = Inr (cand, g1)"
    by (cases "propose g p") (auto simp: py_bind_def)
  from Suc.prems pr obtain cc where cc: "cost objective cand = Inr cc"
    by (cases "cost objective cand") (auto simp: py_bind_def)
  show ?case
  proof (cases "lt cc pc")
    case True
    with Suc.prems pr cc
    have "hill_climb_loop objective lt propose n (cand, cc, k + 1, g1) = Inr (b, bc, k', g')"
      by (simp add: py_bind_def Let_def)
    from Suc.IH [OF this] show ?thesis by simp
  next
    case False
    with Suc.prems pr cc
    have "hill_climb_loop objective lt propose n (p, pc, k + 1, g1) = Inr (b, bc, k', g')"
      by (simp add: py_bind_def Let_def)
    from Suc.IH [OF this] show ?thesis by simp
  qed
qed

lemma hill_climb_loop_returns:
  assumes "\<forall>g p. p \<noteq> [] \<longrightarrow> (\<exists>p' g'. propose g p = Inr (p', g') \<and> p' \<noteq> [])"
  shows "p \<noteq> [] \<Longrightarrow>
    \<exists>b bc k' g'. hill_climb_loop objective lt propose n (p, pc, k, g) = Inr (b, bc, k', g')"
proof (induction n arbitrary: p pc k g)
  case 0
  show ?case by simp
next
  case (Suc n)
  from assms Suc.prems obtain cand g1 where
    pr: "propose g p = Inr (cand, g1)" and ne: "cand \<noteq> []"
    by blast
  from ne have cc: "cost objective cand = Inr (objective cand)" by (simp add: cost_def)
  show ?case
  proof (cases "lt (objective cand) pc")
    case True
    from Suc.IH [OF ne, of "objective cand" "k + 1" g1] True pr cc show ?thesis
      by (simp add: py_bind_def Let_def)
  next
    case False
    from Suc.IH [OF Suc.prems, of pc "k + 1" g1] False pr cc show ?thesis
      by (simp add: py_bind_def Let_def)
  qed
qed

lemma hill_climb_returned:
  assumes "hill_climb objective lt propose init points steps seed = Inr r"
  shows "function_evaluations r = 1 + int (nat steps)" "iterations r = steps" "converged r"
proof -
  from assms obtain rng where rng: "np_random_seed init seed = Inr rng"
    by (cases "np_random_seed init seed") (auto simp: hill_climb_def py_bind_def)
  from assms rng obtain c0 where c0: "cost objective points = Inr c0"
    by (cases "cost objective points") (auto simp: hill_climb_def py_bind_def)
  from assms rng c0 obtain b bc k g where
    l: "hill_climb_loop objective lt propose (nat steps) (points, c0, 1, rng) = Inr (b, bc, k, g)"
    by (cases "hill_climb_loop objective lt propose (nat steps) (points, c0, 1, rng)")
      (auto simp: hill_climb_def py_bind_def)
  from hill_climb_loop_evals [OF l] have k: "k = 1 + int (nat steps)" .
  from assms rng c0 l have
    "r = \<lparr>optimal_value = bc, optimal_point = b, iterations = steps,
          function_evaluations = k, gradient_evaluations = 0, converged = True\<rparr>"
    by (simp add: hill_climb_def py_bind_def)
  with k show "function_evaluations r = 1 + int (nat steps)" "iterations r = steps"
    "converged r"
    by simp_all
qed

text \<open>
  C9, as the specification states it, fails on two kinds of input. For a negative
  \<^verbatim>\<open>steps\<close> the loop body never runs, and the evaluation count is 1, not \<open>steps + 1\<close>. For an
  empty list of points the initial evaluation of the objective raises, and nothing is
  returned.
\<close>

theorem hill_climb_counterexample:
  "hill_climb (\<lambda>pts :: (int \<times> int) list. 0 :: int) (<) (\<lambda>(g :: nat) p. Inr (p, g + 1))
      (\<lambda>s. nat s) [(0, 0)] (- 1) 42 =
     Inr \<lparr>optimal_value = 0, optimal_point = [(0, 0)], iterations = - 1,
          function_evaluations = 1, gradient_evaluations = 0, converged = True\<rparr>
   \<and> (1 :: int) \<noteq> - 1 + 1
   \<and> hill_climb (\<lambda>pts :: (int \<times> int) list. 0 :: int) (<) (\<lambda>(g :: nat) p. Inr (p, g + 1))
      (\<lambda>s. nat s) [] 3 42 = Inl AxisError"
  by (simp add: hill_climb_def np_random_seed_def cost_def py_bind_def)

text \<open>
  C9, amended. On every input on which \<^verbatim>\<open>hill_climb\<close> returns, the search has run its loop
  body \<open>max(steps, 0)\<close> times with no early exit: the evaluation counter, incremented once per
  iteration after the initial evaluation, ends at \<open>max(steps, 0) + 1\<close>, which is
  \<open>steps + 1\<close> whenever \<open>0 \<le> steps\<close>, the reported iteration count is \<open>steps\<close>, and the
  converged flag is true. It returns when the seed is within \<open>0 \<le> seed < 2\<^sup>3\<^sup>2\<close>, the list of
  points is not empty and the proposals do not raise; it raises \<^verbatim>\<open>ValueError\<close> for a seed
  outside that range and \<^verbatim>\<open>AxisError\<close> for an empty list of points.
\<close>

theorem hill_climb_fixed_budget:
  "(\<forall>r. hill_climb objective lt propose init points steps seed = Inr r \<longrightarrow>
        function_evaluations r = max 0 steps + 1
      \<and> (0 \<le> steps \<longrightarrow> function_evaluations r = steps + 1)
      \<and> iterations r = steps \<and> converged r)
   \<and> (0 \<le> seed \<and> seed < 2 ^ 32 \<and> points \<noteq> []
      \<and> (\<forall>g p. p \<noteq> [] \<longrightarrow> (\<exists>p' g'. propose g p = Inr (p', g') \<and> p' \<noteq> [])) \<longrightarrow>
      (\<exists>r. hill_climb objective lt propose init points steps seed = Inr r))
   \<and> (\<not> (0 \<le> seed \<and> seed < 2 ^ 32) \<longrightarrow>
      hill_climb objective lt propose init points steps seed = Inl ValueError)
   \<and> (0 \<le> seed \<and> seed < 2 ^ 32 \<and> points = [] \<longrightarrow>
      hill_climb objective lt propose init points steps seed = Inl AxisError)"
proof (intro conjI allI impI)
  fix r assume r: "hill_climb objective lt propose init points steps seed = Inr r"
  note h = hill_climb_returned [OF r]
  from h(1) show "function_evaluations r = max 0 steps + 1" by (simp add: max_def)
  from h(2) show "iterations r = steps" .
  from h(3) show "converged r" .
  assume "0 \<le> steps"
  with h(1) show "function_evaluations r = steps + 1" by simp
next
  assume a: "0 \<le> seed \<and> seed < 2 ^ 32 \<and> points \<noteq> []
      \<and> (\<forall>g p. p \<noteq> [] \<longrightarrow> (\<exists>p' g'. propose g p = Inr (p', g') \<and> p' \<noteq> []))"
  then have pr: "\<forall>g p. p \<noteq> [] \<longrightarrow> (\<exists>p' g'. propose g p = Inr (p', g') \<and> p' \<noteq> [])"
    and ne: "points \<noteq> []" and sd: "np_random_seed init seed = Inr (init seed)"
    by (simp_all add: np_random_seed_def)
  from hill_climb_loop_returns [OF pr ne, of objective lt "nat steps" "objective points" 1 "init seed"]
  obtain b bc k g where
    "hill_climb_loop objective lt propose (nat steps) (points, objective points, 1, init seed) =
       Inr (b, bc, k, g)"
    by blast
  with ne sd show "\<exists>r. hill_climb objective lt propose init points steps seed = Inr r"
    by (simp add: hill_climb_def py_bind_def cost_def)
next
  assume "\<not> (0 \<le> seed \<and> seed < 2 ^ 32)"
  then have "np_random_seed init seed = Inl ValueError"
    unfolding np_random_seed_def by (simp only: if_False)
  then show "hill_climb objective lt propose init points steps seed = Inl ValueError"
    by (simp add: hill_climb_def py_bind_def)
next
  assume "0 \<le> seed \<and> seed < 2 ^ 32 \<and> points = []"
  then show "hill_climb objective lt propose init points steps seed = Inl AxisError"
    by (simp add: hill_climb_def py_bind_def np_random_seed_def cost_def)
qed

theorem hill_climb_fixed_budget_witness:
  "hill_climb (\<lambda>pts :: (int \<times> int) list. 0 :: int) (<) (\<lambda>(g :: nat) p. Inr (p, g + 1))
      (\<lambda>s. nat s) [(0, 0)] 3 42 =
     Inr \<lparr>optimal_value = 0, optimal_point = [(0, 0)], iterations = 3,
          function_evaluations = 4, gradient_evaluations = 0, converged = True\<rparr>
   \<and> (0 :: int) \<le> 3
   \<and> function_evaluations
       \<lparr>optimal_value = 0 :: int, optimal_point = [(0 :: int, 0 :: int)], iterations = 3,
        function_evaluations = 4, gradient_evaluations = 0, converged = True\<rparr> = 3 + 1"
proof -
  let ?r = "\<lparr>optimal_value = 0 :: int, optimal_point = [(0 :: int, 0 :: int)], iterations = 3,
        function_evaluations = 4, gradient_evaluations = 0, converged = True\<rparr>"
  have e: "hill_climb (\<lambda>pts :: (int \<times> int) list. 0 :: int) (<)
      (\<lambda>(g :: nat) p. Inr (p, g + 1)) (\<lambda>s. nat s) [(0, 0)] 3 42 = Inr ?r"
    by (simp add: hill_climb_def np_random_seed_def cost_def py_bind_def numeral_3_eq_3)
  have s: "(0 :: int) \<le> 3" by simp
  from hill_climb_fixed_budget [of "\<lambda>pts :: (int \<times> int) list. 0 :: int" "(<)"
      "\<lambda>(g :: nat) p. Inr (p, g + 1)" "\<lambda>s. nat s" "[(0, 0)]" 3 42] e s
  have "function_evaluations ?r = 3 + 1" by blast
  with e s show ?thesis by (intro conjI)
qed

end
